theory Spec2Isabelle
  imports Main "HOL-Library.Stream"
begin

section \<open>Data model of the random sentence generator (rsg.cc)\<close>

text \<open>
  A \<open>Production\<close> is the \<^verbatim>\<open>vector<string>\<close> of words the source iterates over with
  \<^verbatim>\<open>Production::iterator\<close>; the grammar is the \<^verbatim>\<open>map<string, Definition>\<close>.
\<close>

type_synonym Production = "string list"

text \<open>
  Modelled from the spec: the class \<^verbatim>\<open>Definition\<close> (definition.h is not among the
  sources). A Definition is a nonterminal name plus its ordered alternatives;
  \<^verbatim>\<open>getNonterminal\<close> returns the name.
\<close>

record Definition =
  nonterminal_name :: string
  possibleExpansions :: "Production list"

type_synonym grammar = "string \<rightharpoonup> Definition"

text \<open>
  The failures of the program. \<^verbatim>\<open>string::at\<close> and \<^verbatim>\<open>map::at\<close> both throw
  \<^verbatim>\<open>std::out_of_range\<close>; the model keeps apart which call threw. The failure of
  \<^verbatim>\<open>map::at\<close> on the grammar is what the specification calls
  \<open>UndefinedNonterminalError\<close>. \<open>no_production\<close> marks a random choice from a
  Definition without alternatives, and \<open>GrammarFormatError\<close> a malformed block.
\<close>

datatype error =
    string_at_out_of_range
  | map_at_out_of_range
  | no_production
  | GrammarFormatError

text \<open>
  Modelled from the spec: the random source, whose code is not among the sources.
  In the program it is process-wide state (\<^verbatim>\<open>definition.getRandomProduction()\<close>
  takes no argument). The model makes that state explicit: it is the infinite
  sequence of the draws still to come, and a function that draws returns the rest.
\<close>

type_synonym rng = "nat stream"

definition getNonterminal :: "Definition \<Rightarrow> string" where
  "getNonterminal d = nonterminal_name d"

text \<open>
  Modelled from the spec: \<^verbatim>\<open>Definition::getRandomProduction\<close> (not among the
  sources) chooses one of the alternatives with the next draw of the random source
  and advances the source; the draw is reduced modulo the number of alternatives.
  The spec gives every Definition at least one alternative; on a Definition without
  any, the model fails with \<open>no_production\<close>.
\<close>

definition getRandomProduction :: "Definition \<Rightarrow> rng \<Rightarrow> error + (Production \<times> rng)" where
  "getRandomProduction d r =
     (if possibleExpansions d = [] then Inl no_production
      else Inr (possibleExpansions d ! (shd r mod length (possibleExpansions d)), stl r))"

section \<open>The expander\<close>

text \<open>\<^verbatim>\<open>word.at(0) != '<'\<close>: \<^verbatim>\<open>at\<close> throws on the empty string.\<close>

fun isTerminal :: "string \<Rightarrow> error + bool" where
  "isTerminal [] = Inl string_at_out_of_range"
| "isTerminal (c # cs) = Inr (c \<noteq> CHR ''<'')"

text \<open>\<^verbatim>\<open>grammar.at(word)\<close>: throws when the key is absent.\<close>

definition grammar_at :: "grammar \<Rightarrow> string \<Rightarrow> error + Definition" where
  "grammar_at g w = (case g w of None \<Rightarrow> Inl map_at_out_of_range | Some d \<Rightarrow> Inr d)"

text \<open>
  \<^verbatim>\<open>buildTextVector\<close>: the first argument is the part of the production from
  \<^verbatim>\<open>current\<close> to \<^verbatim>\<open>production.end()\<close>; the text vector (mutated through a
  reference in the source) and the random source are passed in and returned. The
  recursion need not end, since a grammar may be cyclic, so the result is optional:
  \<open>None\<close> is a run that never returns.
\<close>

partial_function (option) buildTextVector ::
  "Production \<Rightarrow> grammar \<Rightarrow> string list \<Rightarrow> rng \<Rightarrow> (error + string list \<times> rng) option"
where
  "buildTextVector current g text r =
     (case current of
        [] \<Rightarrow> Some (Inr (text, r))
      | word # rest \<Rightarrow>
          (case isTerminal word of
             Inl e \<Rightarrow> Some (Inl e)
           | Inr terminal \<Rightarrow>
               if terminal then buildTextVector rest g (text @ [word]) r
               else
                 (case grammar_at g word of
                    Inl e \<Rightarrow> Some (Inl e)
                  | Inr definition \<Rightarrow>
                      (case getRandomProduction definition r of
                         Inl e \<Rightarrow> Some (Inl e)
                       | Inr (newProduction, r') \<Rightarrow>
                           Option.bind (buildTextVector newProduction g text r')
                             (\<lambda>res. case res of
                                  Inl e \<Rightarrow> Some (Inl e)
                                | Inr (text', r'') \<Rightarrow> buildTextVector rest g text' r'')))))"

declare buildTextVector.simps [code]

section \<open>The generator\<close>

definition numberOfVersions :: nat where
  "numberOfVersions = 3"

text \<open>
  The \<^verbatim>\<open>for\<close> loop of \<^verbatim>\<open>generateText\<close>, by the number of iterations left: every
  iteration starts from an empty text vector, expands the same \<open>production\<close> and
  prints the text. The printed texts are returned as a list, first version first;
  a run that fails returns the failure alone.
\<close>

primrec generateText_loop ::
  "nat \<Rightarrow> Production \<Rightarrow> grammar \<Rightarrow> rng \<Rightarrow> (error + string list list \<times> rng) option"
where
  "generateText_loop 0 production g r = Some (Inr ([], r))"
| "generateText_loop (Suc n) production g r =
     Option.bind (buildTextVector production g [] r)
       (\<lambda>res. case res of
            Inl e \<Rightarrow> Some (Inl e)
          | Inr (text, r') \<Rightarrow>
              Option.bind (generateText_loop n production g r')
                (\<lambda>res'. case res' of
                     Inl e \<Rightarrow> Some (Inl e)
                   | Inr (texts, r'') \<Rightarrow> Some (Inr (text # texts, r''))))"

definition generateText ::
  "string \<Rightarrow> grammar \<Rightarrow> rng \<Rightarrow> (error + string list list \<times> rng) option"
where
  "generateText startNonTerminal g r =
     (case grammar_at g startNonTerminal of
        Inl e \<Rightarrow> Some (Inl e)
      | Inr definition \<Rightarrow>
          (case getRandomProduction definition r of
             Inl e \<Rightarrow> Some (Inl e)
           | Inr (production, r') \<Rightarrow> generateText_loop numberOfVersions production g r'))"

section \<open>Reading the grammar\<close>

text \<open>
  The input stream is the list of the characters not yet read.
  \<^verbatim>\<open>getline(infile, s, delim)\<close> extracts up to and including the next \<open>delim\<close>
  and stores what came before it; when no \<open>delim\<close> is left it extracts everything
  and sets the end-of-file bit, which is what \<^verbatim>\<open>infile.eof()\<close> reads afterwards.
\<close>

type_synonym ifstream = "char list"

definition getline :: "ifstream \<Rightarrow> char \<Rightarrow> string \<times> ifstream" where
  "getline infile delim =
     (takeWhile (\<lambda>c. c \<noteq> delim) infile, drop 1 (dropWhile (\<lambda>c. c \<noteq> delim) infile))"

definition getline_eof :: "ifstream \<Rightarrow> char \<Rightarrow> bool" where
  "getline_eof infile delim = (delim \<notin> set infile)"

definition putback :: "char \<Rightarrow> ifstream \<Rightarrow> ifstream" where
  "putback c infile = c # infile"

text \<open>
  \<^verbatim>\<open>readGrammar\<close>. The constructor \<^verbatim>\<open>Definition def(infile)\<close> is not among the
  sources, so it is the parameter \<open>ctor\<close>: it reads one definition from the stream
  and leaves the rest, or fails. The loop has no bound of its own (a constructor
  that reads nothing would keep it running), hence the optional result.
\<close>

partial_function (option) readGrammar ::
  "(ifstream \<Rightarrow> error + Definition \<times> ifstream) \<Rightarrow> ifstream \<Rightarrow> grammar \<Rightarrow> (error + grammar) option"
where
  "readGrammar ctor infile grammar =
     (if getline_eof infile CHR ''{'' then Some (Inr grammar)
      else
        (case ctor (putback CHR ''{'' (snd (getline infile CHR ''{''))) of
           Inl e \<Rightarrow> Some (Inl e)
         | Inr (def, infile') \<Rightarrow> readGrammar ctor infile' (grammar(getNonterminal def \<mapsto> def))))"

declare readGrammar.simps [code]

subsection \<open>The definition block\<close>

text \<open>
  Modelled from the spec: the classes \<^verbatim>\<open>Definition\<close> and \<^verbatim>\<open>Production\<close> are
  built from the input stream by constructors that are not among the sources
  (definition.h, production.h). What follows is the block format of the
  specification, read item by item; every departure from the format is a
  \<open>GrammarFormatError\<close>.
\<close>

definition newline :: char where
  "newline = CHR 0x0A"

definition isspace :: "char \<Rightarrow> bool" where
  "isspace c = (c = CHR '' '' \<or> c = CHR 0x09 \<or> c = CHR 0x0A \<or> c = CHR 0x0B
                \<or> c = CHR 0x0C \<or> c = CHR 0x0D)"

definition isdigit :: "char \<Rightarrow> bool" where
  "isdigit c = (48 \<le> (of_char c :: nat) \<and> (of_char c :: nat) \<le> 57)"

text \<open>
  Modelled from the spec: the block is line-oriented. A line is read up to its
  newline; a stream that ends before the newline is malformed.
\<close>

definition read_line :: "ifstream \<Rightarrow> error + string \<times> ifstream" where
  "read_line infile =
     (if getline_eof infile newline then Inl GrammarFormatError
      else Inr (getline infile newline))"

text \<open>
  Modelled from the spec: a production line is split on whitespace into the
  Production's tokens. \<open>cur\<close> holds the characters of the token being read.
\<close>

fun split_tokens :: "string \<Rightarrow> string \<Rightarrow> Production" where
  "split_tokens cur [] = (if cur = [] then [] else [cur])"
| "split_tokens cur (c # cs) =
     (if isspace c then (if cur = [] then split_tokens [] cs else cur # split_tokens [] cs)
      else split_tokens (cur @ [c]) cs)"

definition Production_of_line :: "string \<Rightarrow> Production" where
  "Production_of_line line = split_tokens [] line"

text \<open>Modelled from the spec: the count line holds an integer, in decimal digits.\<close>

definition read_count :: "string \<Rightarrow> error + nat" where
  "read_count line =
     (if line = [] \<or> \<not> list_all isdigit line then Inl GrammarFormatError
      else Inr (foldl (\<lambda>n c. 10 * n + (of_char c - 48)) 0 line))"

text \<open>Modelled from the spec: exactly \<open>K\<close> lines are read, one Production per line.\<close>

fun read_productions :: "nat \<Rightarrow> ifstream \<Rightarrow> error + Production list \<times> ifstream" where
  "read_productions 0 infile = Inr ([], infile)"
| "read_productions (Suc k) infile =
     (case read_line infile of
        Inl e \<Rightarrow> Inl e
      | Inr (line, infile1) \<Rightarrow>
          (case read_productions k infile1 of
             Inl e \<Rightarrow> Inl e
           | Inr (ps, infile') \<Rightarrow> Inr (Production_of_line line # ps, infile')))"

text \<open>Modelled from the spec: the closing brace is consumed; anything else is an error.\<close>

fun read_closing :: "ifstream \<Rightarrow> error + ifstream" where
  "read_closing [] = Inl GrammarFormatError"
| "read_closing (c # infile) = (if c = CHR ''}'' then Inr infile else Inl GrammarFormatError)"

text \<open>
  Modelled from the spec: the stream constructor of \<^verbatim>\<open>Definition\<close>
  (definition.h and its implementation are not among the sources). It reads one
  block of the format
  \<^verbatim>\<open>{ <name> K line_1 ... line_K }\<close>
  (one item per line): the opening brace and the rest of its line, the line with
  the nonterminal's name, the line with the count \<open>K\<close>, \<open>K\<close> production lines and
  the closing brace. A missing brace, a count that is not an integer and a stream
  that ends before the \<open>K\<close> lines are read are format errors.
\<close>

definition Definition_ctor :: "ifstream \<Rightarrow> error + Definition \<times> ifstream" where
  "Definition_ctor infile =
     (case infile of
        [] \<Rightarrow> Inl GrammarFormatError
      | c # in0 \<Rightarrow>
          if c \<noteq> CHR ''{'' then Inl GrammarFormatError
          else
            (case read_line in0 of
               Inl e \<Rightarrow> Inl e
             | Inr (pad, in1) \<Rightarrow>
            (case read_line in1 of
               Inl e \<Rightarrow> Inl e
             | Inr (name, in2) \<Rightarrow>
            (case read_line in2 of
               Inl e \<Rightarrow> Inl e
             | Inr (cnt, in3) \<Rightarrow>
            (case read_count cnt of
               Inl e \<Rightarrow> Inl e
             | Inr k \<Rightarrow>
            (case read_productions k in3 of
               Inl e \<Rightarrow> Inl e
             | Inr (ps, in4) \<Rightarrow>
            (case read_closing in4 of
               Inl e \<Rightarrow> Inl e
             | Inr in5 \<Rightarrow>
                 Inr (\<lparr>nonterminal_name = name, possibleExpansions = ps\<rparr>, in5))))))))"

section \<open>The program\<close>

text \<open>
  \<^verbatim>\<open>main\<close> after the grammar file has been opened: the file's content and the
  random source go in; the number of definitions that is printed and the texts
  printed by \<^verbatim>\<open>generateText\<close> come out. \<open>Inl e\<close> is a run that \<open>main\<close> leaves by the
  exception \<open>e\<close>, which it does not catch.
\<close>

definition startNonTerminal :: string where
  "startNonTerminal = ''<start>''"

definition main :: "ifstream \<Rightarrow> rng \<Rightarrow> (error + nat \<times> string list list) option" where
  "main grammarFile r =
     Option.bind (readGrammar Definition_ctor grammarFile Map.empty)
       (\<lambda>res. case res of
            Inl e \<Rightarrow> Some (Inl e)
          | Inr grammar \<Rightarrow>
              Option.bind (generateText startNonTerminal grammar r)
                (\<lambda>res'. case res' of
                     Inl e \<Rightarrow> Some (Inl e)
                   | Inr (texts, r') \<Rightarrow> Some (Inr (card (dom grammar), texts))))"

section \<open>The example grammar of the specification\<close>

definition startDefinition :: Definition where
  "startDefinition =
     \<lparr>nonterminal_name = ''<start>'',
      possibleExpansions = [[''The'', ''<animal>'', ''sat'', ''.'']]\<rparr>"

definition animalDefinition :: Definition where
  "animalDefinition =
     \<lparr>nonterminal_name = ''<animal>'', possibleExpansions = [[''cat''], [''dog'']]\<rparr>"

definition exampleGrammar :: grammar where
  "exampleGrammar = [''<start>'' \<mapsto> startDefinition, ''<animal>'' \<mapsto> animalDefinition]"

definition text_of_lines :: "string list \<Rightarrow> string" where
  "text_of_lines ls = concat (map (\<lambda>l. l @ [newline]) ls)"

definition exampleText :: string where
  "exampleText =
     text_of_lines [''{'', ''<start>'', ''1'', ''The <animal> sat .'', ''}'',
                    ''{'', ''<animal>'', ''2'', ''cat'', ''dog'', ''}'']"

text \<open>The example grammar without the block of \<open><animal>\<close>.\<close>

definition startOnlyGrammar :: grammar where
  "startOnlyGrammar = [''<start>'' \<mapsto> startDefinition]"

text \<open>The texts of a grammar file with one of the two blocks only.\<close>

definition startOnlyText :: string where
  "startOnlyText = text_of_lines [''{'', ''<start>'', ''1'', ''The <animal> sat .'', ''}'']"

definition animalOnlyText :: string where
  "animalOnlyText = text_of_lines [''{'', ''<animal>'', ''2'', ''cat'', ''dog'', ''}'']"

section \<open>Well-formed grammar texts\<close>

text \<open>
  \<open>blocks ctor infile ds\<close>: the text \<open>infile\<close> holds the definition blocks \<open>ds\<close>, in
  this order, and nothing else that opens a block. That is, from each \<open>{\<close> that
  \<^verbatim>\<open>readGrammar\<close> finds, the constructor reads the next Definition of \<open>ds\<close>, and
  after the last one no \<open>{\<close> is left.
\<close>

fun blocks :: "(ifstream \<Rightarrow> error + Definition \<times> ifstream) \<Rightarrow> ifstream \<Rightarrow> Definition list \<Rightarrow> bool" where
  "blocks ctor infile [] = (CHR ''{'' \<notin> set infile)"
| "blocks ctor infile (d # ds) =
     (CHR ''{'' \<in> set infile \<and>
      (case ctor (dropWhile (\<lambda>c. c \<noteq> CHR ''{'') infile) of
         Inl e \<Rightarrow> False
       | Inr (d', infile') \<Rightarrow> d' = d \<and> blocks ctor infile' ds))"

text \<open>The grammar after \<^verbatim>\<open>grammar[def.getNonterminal()] = def\<close> for each of \<open>ds\<close> in turn.\<close>

definition stored :: "grammar \<Rightarrow> Definition list \<Rightarrow> grammar" where
  "stored g ds = foldl (\<lambda>g d. g(getNonterminal d \<mapsto> d)) g ds"

text \<open>A grammar text with two blocks for \<open><start>\<close>.\<close>

definition startFirst :: Definition where
  "startFirst = \<lparr>nonterminal_name = ''<start>'', possibleExpansions = [[''a'']]\<rparr>"

definition startSecond :: Definition where
  "startSecond = \<lparr>nonterminal_name = ''<start>'', possibleExpansions = [[''b'']]\<rparr>"

definition duplicateText :: string where
  "duplicateText =
     text_of_lines [''{'', ''<start>'', ''1'', ''a'', ''}'', ''{'', ''<start>'', ''1'', ''b'', ''}'']"

text \<open>
  The block format of the specification, written without reference to the reader:
  a block is an opening brace with the rest of its line, the name line, the count
  line, as many production lines as the count says, and a closing brace. A text
  conforms when it consists of such blocks, each preceded by text without a \<open>{\<close>,
  and of trailing text without a \<open>{\<close>.
\<close>

definition block_text :: "string \<Rightarrow> string \<Rightarrow> string \<Rightarrow> string list \<Rightarrow> string" where
  "block_text pad name cnt lines =
     CHR ''{'' # pad @ newline # name @ newline # cnt @ newline # text_of_lines lines @ ''}''"

definition is_block :: "string \<Rightarrow> bool" where
  "is_block b =
     (\<exists>pad name cnt lines.
        b = block_text pad name cnt lines \<and> newline \<notin> set pad \<and> newline \<notin> set name \<and>
        newline \<notin> set cnt \<and> read_count cnt = Inr (length lines) \<and>
        (\<forall>l \<in> set lines. newline \<notin> set l))"

inductive conforms :: "string \<Rightarrow> bool" where
  no_block: "CHR ''{'' \<notin> set junk \<Longrightarrow> conforms junk"
| block: "CHR ''{'' \<notin> set junk \<Longrightarrow> is_block b \<Longrightarrow> conforms rest \<Longrightarrow> conforms (junk @ b @ rest)"

text \<open>Two malformed texts: a count that exceeds the lines present, and a count that is no integer.\<close>

definition countMismatchText :: string where
  "countMismatchText = text_of_lines [''{'', ''<start>'', ''2'', ''a'', ''}'']"

definition nonIntegerCountText :: string where
  "nonIntegerCountText = text_of_lines [''{'', ''<start>'', ''two'', ''a'', ''b'', ''}'']"

section \<open>A grammar whose start symbol has two alternatives\<close>

definition twoWayDefinition :: Definition where
  "twoWayDefinition = \<lparr>nonterminal_name = ''<start>'', possibleExpansions = [[''a''], [''b'']]\<rparr>"

definition twoWayGrammar :: grammar where
  "twoWayGrammar = [''<start>'' \<mapsto> twoWayDefinition]"

text \<open>
  For comparison with \<open>generateText\<close>: generation as the specification words it,
  where each of the \<open>count\<close> repetitions draws its own alternative of the start
  Definition before expanding it.
\<close>

primrec generate_as_specified ::
  "nat \<Rightarrow> Definition \<Rightarrow> grammar \<Rightarrow> rng \<Rightarrow> (error + string list list \<times> rng) option"
where
  "generate_as_specified 0 d g r = Some (Inr ([], r))"
| "generate_as_specified (Suc n) d g r =
     (case getRandomProduction d r of
        Inl e \<Rightarrow> Some (Inl e)
      | Inr (production, r0) \<Rightarrow>
          Option.bind (buildTextVector production g [] r0)
            (\<lambda>res. case res of
                 Inl e \<Rightarrow> Some (Inl e)
               | Inr (text, r') \<Rightarrow>
                   Option.bind (generate_as_specified n d g r')
                     (\<lambda>res'. case res' of
                          Inl e \<Rightarrow> Some (Inl e)
                        | Inr (texts, r'') \<Rightarrow> Some (Inr (text # texts, r'')))))"

section \<open>What a run of the expander looks like\<close>

text \<open>
  \<open>run_shape p g t r y\<close> describes a run of \<open>buildTextVector\<close> on production \<open>p\<close>
  that returned \<open>y\<close>: it read some number \<open>n\<close> of draws from the random source, a
  successful run appended terminals only to the text it was given and left the
  source advanced by \<open>n\<close>, and every run from a source with the same first \<open>n\<close>
  draws (and from any text) does the same.
\<close>

definition run_shape ::
  "Production \<Rightarrow> grammar \<Rightarrow> string list \<Rightarrow> rng \<Rightarrow> (error + string list \<times> rng) \<Rightarrow> bool" where
  "run_shape p g t r y =
     (\<exists>n. case y of
        Inl e \<Rightarrow> (\<forall>t2 r2. stake n r2 = stake n r \<longrightarrow> buildTextVector p g t2 r2 = Some (Inl e))
      | Inr (t', r') \<Rightarrow>
          (\<exists>out. t' = t @ out \<and> r' = sdrop n r \<and> (\<forall>w \<in> set out. isTerminal w = Inr True) \<and>
                 (\<forall>t2 r2. stake n r2 = stake n r \<longrightarrow>
                    buildTextVector p g t2 r2 = Some (Inr (t2 @ out, sdrop n r2)))))"


section \<open>An expansion, in the words of the specification\<close>


section \<open>The words a run arrives at\<close>

text \<open>
  \<open>reaches g p t r w\<close>: the run of \<open>buildTextVector\<close> on the production \<open>p\<close>, from
  the text \<open>t\<close> and the random source \<open>r\<close>, arrives at the word \<open>w\<close>. Either \<open>w\<close>
  stands in \<open>p\<close> and the words before it have been expanded, or a nonterminal \<open>v\<close>
  stands in \<open>p\<close>, the words before it have been expanded, and the run on the
  production chosen for \<open>v\<close> arrives at \<open>w\<close>: at any depth of nesting.
\<close>

inductive reaches :: "grammar \<Rightarrow> Production \<Rightarrow> string list \<Rightarrow> rng \<Rightarrow> string \<Rightarrow> bool" where
  here:
    "buildTextVector pre g t r = Some (Inr (t1, r1)) \<Longrightarrow> reaches g (pre @ w # post) t r w"
| inside:
    "buildTextVector pre g t r = Some (Inr (t1, r1)) \<Longrightarrow>
     isTerminal v = Inr False \<Longrightarrow> g v = Some d \<Longrightarrow>
     getRandomProduction d r1 = Inr (p, r2) \<Longrightarrow>
     reaches g p t1 r2 w \<Longrightarrow> reaches g (pre @ v # post) t r w"

text \<open>
  A grammar in which an undefined nonterminal is two productions below the start
  production: \<open><start>\<close> gives \<open>go <a>\<close>, \<open><a>\<close> gives \<open><b>\<close>, \<open><b>\<close> gives
  \<open>x <missing> y\<close>.
\<close>

definition missingDefinition :: Definition where
  "missingDefinition =
     \<lparr>nonterminal_name = ''<b>'', possibleExpansions = [[''x'', ''<missing>'', ''y'']]\<rparr>"

definition nestedDefinition :: Definition where
  "nestedDefinition = \<lparr>nonterminal_name = ''<a>'', possibleExpansions = [[''<b>'']]\<rparr>"

definition nestedStart :: Definition where
  "nestedStart = \<lparr>nonterminal_name = ''<start>'', possibleExpansions = [[''go'', ''<a>'']]\<rparr>"

definition nestedGrammar :: grammar where
  "nestedGrammar =
     [''<start>'' \<mapsto> nestedStart, ''<a>'' \<mapsto> nestedDefinition, ''<b>'' \<mapsto> missingDefinition]"

section \<open>Unfolding the expander\<close>

lemma buildTextVector_Nil: "buildTextVector [] g text r = Some (Inr (text, r))"
  by (subst buildTextVector.simps) simp

lemma buildTextVector_empty_word:
  "buildTextVector ([] # rest) g text r = Some (Inl string_at_out_of_range)"
  by (subst buildTextVector.simps) simp

lemma buildTextVector_terminal:
  "isTerminal w = Inr True \<Longrightarrow>
   buildTextVector (w # rest) g text r = buildTextVector rest g (text @ [w]) r"
  by (subst buildTextVector.simps) simp

lemma buildTextVector_undefined:
  "isTerminal w = Inr False \<Longrightarrow> g w = None \<Longrightarrow>
   buildTextVector (w # rest) g text r = Some (Inl map_at_out_of_range)"
  by (subst buildTextVector.simps) (simp add: grammar_at_def)

lemma buildTextVector_no_production:
  "isTerminal w = Inr False \<Longrightarrow> g w = Some d \<Longrightarrow> getRandomProduction d r = Inl e \<Longrightarrow>
   buildTextVector (w # rest) g text r = Some (Inl e)"
  by (subst buildTextVector.simps) (simp add: grammar_at_def)

lemma buildTextVector_nonterminal:
  "isTerminal w = Inr False \<Longrightarrow> g w = Some d \<Longrightarrow> getRandomProduction d r = Inr (p, r') \<Longrightarrow>
   buildTextVector (w # rest) g text r =
     Option.bind (buildTextVector p g text r')
       (\<lambda>res. case res of Inl e \<Rightarrow> Some (Inl e)
                         | Inr (text', r'') \<Rightarrow> buildTextVector rest g text' r'')"
  by (subst buildTextVector.simps) (simp add: grammar_at_def)

lemma run_shape_InlI:
  "(\<And>t2 r2. stake n r2 = stake n r \<Longrightarrow> buildTextVector p g t2 r2 = Some (Inl e)) \<Longrightarrow>
   run_shape p g t r (Inl e)"
  unfolding run_shape_def by (rule exI[of _ n]) simp

lemma run_shape_InrI:
  "(\<forall>w \<in> set out. isTerminal w = Inr True) \<Longrightarrow>
   (\<And>t2 r2. stake n r2 = stake n r \<Longrightarrow>
      buildTextVector p g t2 r2 = Some (Inr (t2 @ out, sdrop n r2))) \<Longrightarrow>
   run_shape p g t r (Inr (t @ out, sdrop n r))"
  unfolding run_shape_def by (rule exI[of _ n]) auto

lemma run_shape_InlE:
  assumes "run_shape p g t r (Inl e)"
  obtains n where
    "\<forall>t2 r2. stake n r2 = stake n r \<longrightarrow> buildTextVector p g t2 r2 = Some (Inl e)"
  using assms unfolding run_shape_def by auto

lemma run_shape_InrE:
  assumes "run_shape p g t r (Inr (t', r'))"
  obtains n out where "t' = t @ out" "r' = sdrop n r" "\<forall>w \<in> set out. isTerminal w = Inr True"
    "\<forall>t2 r2. stake n r2 = stake n r \<longrightarrow>
       buildTextVector p g t2 r2 = Some (Inr (t2 @ out, sdrop n r2))"
  using assms unfolding run_shape_def by auto

lemma stake_eq_split:
  "stake (m + n) a = stake (m + n) b \<Longrightarrow>
   stake m a = stake m b \<and> stake n (sdrop m a) = stake n (sdrop m b)"
  by (metis stake_add append_eq_append_conv length_stake)

lemma getRandomProduction_Inr:
  "getRandomProduction d r = Inr (np, r1) \<Longrightarrow>
   r1 = stl r \<and> (\<forall>r2. shd r2 = shd r \<longrightarrow> getRandomProduction d r2 = Inr (np, stl r2))"
  by (auto simp: getRandomProduction_def split: if_splits)

lemma getRandomProduction_Inl:
  "getRandomProduction d r = Inl e \<Longrightarrow> getRandomProduction d r2 = Inl e"
  by (auto simp: getRandomProduction_def split: if_splits)

lemma buildTextVector_run_shape:
  assumes "buildTextVector p g t r = Some y"
  shows "run_shape p g t r y"
  using assms
proof (induct rule: buildTextVector.raw_induct[rotated 1, consumes 1, case_names step])
  case (step f p g t r y)
  show ?case
  proof (cases p)
    case Nil
    with step(2) have y: "y = Inr (t @ [], sdrop 0 r)" by simp
    show ?thesis unfolding y Nil
      by (rule run_shape_InrI) (simp_all add: buildTextVector_Nil)
  next
    case (Cons w rest)
    show ?thesis
    proof (cases "isTerminal w")
      case (Inl e)
      with Cons step(2) have "w = []" and y: "y = Inl string_at_out_of_range"
        by (cases w; simp)+
      then show ?thesis unfolding y Cons
        by (intro run_shape_InlI[of 0]) (simp add: buildTextVector_empty_word)
    next
      case (Inr b)
      show ?thesis
      proof (cases b)
        case True
        with Inr have tw: "isTerminal w = Inr True" by simp
        with Cons step(2) have "f rest g (t @ [w]) r = Some y" by simp
        note sh = step(1)[OF this]
        show ?thesis
        proof (cases y)
          case (Inl e)
          from sh[unfolded Inl] obtain n where
            "\<forall>t2 r2. stake n r2 = stake n r \<longrightarrow> buildTextVector rest g t2 r2 = Some (Inl e)"
            by (rule run_shape_InlE)
          then show ?thesis unfolding Inl Cons
            by (intro run_shape_InlI[of n]) (simp add: buildTextVector_terminal[OF tw])
        next
          case (Inr st)
          obtain t1 r1 where st: "st = (t1, r1)" by (cases st)
          from sh[unfolded Inr st] obtain n out where o:
            "t1 = (t @ [w]) @ out" "r1 = sdrop n r" "\<forall>w \<in> set out. isTerminal w = Inr True"
            "\<forall>t2 r2. stake n r2 = stake n r \<longrightarrow>
               buildTextVector rest g t2 r2 = Some (Inr (t2 @ out, sdrop n r2))"
            by (rule run_shape_InrE)
          have y: "y = Inr (t @ (w # out), sdrop n r)" using Inr st o(1,2) by simp
          show ?thesis unfolding y Cons
          proof (rule run_shape_InrI)
            show "\<forall>v \<in> set (w # out). isTerminal v = Inr True" using tw o(3) by simp
          next
            fix t2 r2 assume "stake n r2 = stake n r"
            with o(4) have "buildTextVector rest g (t2 @ [w]) r2 = Some (Inr ((t2 @ [w]) @ out, sdrop n r2))"
              by blast
            then show "buildTextVector (w # rest) g t2 r2 = Some (Inr (t2 @ w # out, sdrop n r2))"
              by (simp add: buildTextVector_terminal[OF tw])
          qed
        qed
      next
        case False
        with Inr have nt: "isTerminal w = Inr False" by simp
        show ?thesis
        proof (cases "g w")
          case None
          with nt Cons step(2) have y: "y = Inl map_at_out_of_range"
            by (simp add: grammar_at_def)
          have "\<And>t2 r2. buildTextVector (w # rest) g t2 r2 = Some (Inl map_at_out_of_range)"
            using nt None by (rule buildTextVector_undefined)
          then show ?thesis unfolding y Cons
            by (intro run_shape_InlI[of 0]) simp
        next
          case (Some d)
          show ?thesis
          proof (cases "getRandomProduction d r")
            case (Inl e)
            with Some nt Cons step(2) have y: "y = Inl e" by (simp add: grammar_at_def)
            have "\<And>t2 r2. buildTextVector (w # rest) g t2 r2 = Some (Inl e)"
              using nt Some getRandomProduction_Inl[OF Inl] by (rule buildTextVector_no_production)
            then show ?thesis unfolding y Cons
              by (intro run_shape_InlI[of 0]) simp
          next
            case (Inr pr)
            obtain np r1 where pr: "pr = (np, r1)" by (cases pr)
            have gr: "getRandomProduction d r = Inr (np, r1)" using Inr pr by simp
            from getRandomProduction_Inr[OF gr] have r1: "r1 = stl r"
              and gr2: "\<And>r2. shd r2 = shd r \<Longrightarrow> getRandomProduction d r2 = Inr (np, stl r2)"
              by simp_all
            have nstep: "\<And>t2 r2. shd r2 = shd r \<Longrightarrow> buildTextVector (w # rest) g t2 r2 =
                Option.bind (buildTextVector np g t2 (stl r2))
                  (\<lambda>res. case res of Inl e \<Rightarrow> Some (Inl e)
                         | Inr (text', r'') \<Rightarrow> buildTextVector rest g text' r'')"
              using nt Some gr2 by (rule buildTextVector_nonterminal)
            from gr Some nt Cons step(2)
            obtain res where inner: "f np g t r1 = Some res"
              and cont: "(case res of Inl e \<Rightarrow> Some (Inl e)
                          | Inr (t', r'') \<Rightarrow> f rest g t' r'') = Some y"
              by (auto simp: grammar_at_def bind_eq_Some_conv)
            note sh1 = step(1)[OF inner]
            show ?thesis
            proof (cases res)
              case (Inl e)
              with cont have y: "y = Inl e" by simp
              from sh1[unfolded Inl] obtain n where n:
                "\<forall>t2 r2. stake n r2 = stake n r1 \<longrightarrow> buildTextVector np g t2 r2 = Some (Inl e)"
                by (rule run_shape_InlE)
              show ?thesis unfolding y Cons
              proof (rule run_shape_InlI[of "Suc n"])
                fix t2 r2 assume "stake (Suc n) r2 = stake (Suc n) r"
                then have "shd r2 = shd r" "stake n (stl r2) = stake n r1" by (simp_all add: r1)
                then show "buildTextVector (w # rest) g t2 r2 = Some (Inl e)"
                  using n by (simp add: nstep)
              qed
            next
              case (Inr st)
              obtain t1 r2 where st: "st = (t1, r2)" by (cases st)
              from cont Inr st have "f rest g t1 r2 = Some y" by simp
              note sh2 = step(1)[OF this]
              from sh1[unfolded Inr st] obtain n1 out1 where o1:
                "t1 = t @ out1" "r2 = sdrop n1 r1" "\<forall>w \<in> set out1. isTerminal w = Inr True"
                "\<forall>t2 q. stake n1 q = stake n1 r1 \<longrightarrow>
                   buildTextVector np g t2 q = Some (Inr (t2 @ out1, sdrop n1 q))"
                by (rule run_shape_InrE)
              show ?thesis
              proof (cases y)
                case (Inl e)
                from sh2[unfolded Inl] obtain n2 where n2:
                  "\<forall>t2 q. stake n2 q = stake n2 r2 \<longrightarrow> buildTextVector rest g t2 q = Some (Inl e)"
                  by (rule run_shape_InlE)
                show ?thesis unfolding Inl Cons
                proof (rule run_shape_InlI[of "Suc (n1 + n2)"])
                  fix t2 q assume "stake (Suc (n1 + n2)) q = stake (Suc (n1 + n2)) r"
                  then have hd: "shd q = shd r"
                    and tl: "stake (n1 + n2) (stl q) = stake (n1 + n2) r1"
                    by (simp_all add: r1)
                  from stake_eq_split[OF tl] have a: "stake n1 (stl q) = stake n1 r1"
                    and b: "stake n2 (sdrop n1 (stl q)) = stake n2 r2" by (simp_all add: o1(2))
                  show "buildTextVector (w # rest) g t2 q = Some (Inl e)"
                    by (simp add: nstep[OF hd] o1(4)[rule_format, OF a] n2[rule_format, OF b])
                qed
              next
                case (Inr st2)
                obtain t3 r3 where st2: "st2 = (t3, r3)" by (cases st2)
                from sh2[unfolded Inr st2] obtain n2 out2 where o2:
                  "t3 = t1 @ out2" "r3 = sdrop n2 r2" "\<forall>w \<in> set out2. isTerminal w = Inr True"
                  "\<forall>t2 q. stake n2 q = stake n2 r2 \<longrightarrow>
                     buildTextVector rest g t2 q = Some (Inr (t2 @ out2, sdrop n2 q))"
                  by (rule run_shape_InrE)
                have y: "y = Inr (t @ (out1 @ out2), sdrop (Suc (n1 + n2)) r)"
                  using Inr st2 o1(1,2) o2(1,2) r1 by (simp add: add.commute)
                show ?thesis unfolding y Cons
                proof (rule run_shape_InrI)
                  show "\<forall>v \<in> set (out1 @ out2). isTerminal v = Inr True"
                    using o1(3) o2(3) by auto
                next
                  fix t2 q assume "stake (Suc (n1 + n2)) q = stake (Suc (n1 + n2)) r"
                  then have hd: "shd q = shd r"
                    and tl: "stake (n1 + n2) (stl q) = stake (n1 + n2) r1"
                    by (simp_all add: r1)
                  from stake_eq_split[OF tl] have a: "stake n1 (stl q) = stake n1 r1"
                    and b: "stake n2 (sdrop n1 (stl q)) = stake n2 r2" by (simp_all add: o1(2))
                  show "buildTextVector (w # rest) g t2 q =
                        Some (Inr (t2 @ out1 @ out2, sdrop (Suc (n1 + n2)) q))"
                    by (simp add: nstep[OF hd] o1(4)[rule_format, OF a] o2(4)[rule_format, OF b] add.commute)
                qed
              qed
            qed
          qed
        qed
      qed
    qed
  qed
qed

lemma buildTextVector_append:
  "buildTextVector (xs @ ys) g t r =
     Option.bind (buildTextVector xs g t r)
       (\<lambda>res. case res of Inl e \<Rightarrow> Some (Inl e)
                         | Inr (t', r') \<Rightarrow> buildTextVector ys g t' r')"
proof (induction xs arbitrary: t r)
  case Nil
  show ?case by (simp add: buildTextVector_Nil)
next
  case (Cons w xs)
  show ?case
  proof (cases "isTerminal w")
    case (Inl e)
    then have "\<And>rest. buildTextVector (w # rest) g t r = Some (Inl e)"
      by (subst buildTextVector.simps) simp
    then show ?thesis by simp
  next
    case (Inr b)
    show ?thesis
    proof (cases b)
      case True
      with Inr have "isTerminal w = Inr True" by simp
      then show ?thesis by (simp add: buildTextVector_terminal Cons.IH)
    next
      case False
      with Inr have nt: "isTerminal w = Inr False" by simp
      show ?thesis
      proof (cases "g w")
        case None
        have "\<And>rest. buildTextVector (w # rest) g t r = Some (Inl map_at_out_of_range)"
          using nt None by (rule buildTextVector_undefined)
        then show ?thesis by simp
      next
        case (Some d)
        show ?thesis
        proof (cases "getRandomProduction d r")
          case (Inl e)
          have "\<And>rest. buildTextVector (w # rest) g t r = Some (Inl e)"
            using nt Some Inl by (rule buildTextVector_no_production)
          then show ?thesis by simp
        next
          case (Inr pr)
          obtain np r1 where "pr = (np, r1)" by (cases pr)
          with Inr have gr: "getRandomProduction d r = Inr (np, r1)" by simp
          have nstep: "\<And>rest. buildTextVector (w # rest) g t r =
              Option.bind (buildTextVector np g t r1)
                (\<lambda>res. case res of Inl e \<Rightarrow> Some (Inl e)
                       | Inr (text', r'') \<Rightarrow> buildTextVector rest g text' r'')"
            using nt Some gr by (rule buildTextVector_nonterminal)
          show ?thesis
          proof (cases "buildTextVector np g t r1")
            case None
            then show ?thesis by (simp add: nstep)
          next
            case (Some res)
            then show ?thesis
              by (cases res) (auto simp: nstep Cons.IH)
          qed
        qed
      qed
    qed
  qed
qed

lemma isTerminal_True_iff:
  "isTerminal w = Inr True \<longleftrightarrow> (\<exists>c cs. w = c # cs \<and> c \<noteq> CHR ''<'')"
  by (cases w) auto

lemma buildTextVector_terminals:
  assumes "buildTextVector p g t r = Some (Inr (t', r'))"
  shows "\<exists>out. t' = t @ out \<and> (\<forall>w \<in> set out. isTerminal w = Inr True)"
  using buildTextVector_run_shape[OF assms] by (elim run_shape_InrE) blast

lemma generateText_loop_Suc_Inr:
  assumes "generateText_loop (Suc n) p g r = Some (Inr (texts, r'))"
  obtains t1 r1 ts where "buildTextVector p g [] r = Some (Inr (t1, r1))"
    and "generateText_loop n p g r1 = Some (Inr (ts, r'))" and "texts = t1 # ts"
proof -
  from assms obtain res where res: "buildTextVector p g [] r = Some res"
    and k: "(case res of Inl e \<Rightarrow> Some (Inl e)
             | Inr (t1, r1) \<Rightarrow>
                 Option.bind (generateText_loop n p g r1)
                   (\<lambda>res'. case res' of Inl e \<Rightarrow> Some (Inl e)
                          | Inr (ts, r2) \<Rightarrow> Some (Inr (t1 # ts, r2)))) = Some (Inr (texts, r'))"
    by (auto simp: bind_eq_Some_conv)
  show thesis
  proof (cases res)
    case (Inl e)
    with k show thesis by simp
  next
    case (Inr st)
    obtain t1 r1 where st: "st = (t1, r1)" by (cases st)
    from k Inr st obtain res' where l: "generateText_loop n p g r1 = Some res'"
      and m: "(case res' of Inl e \<Rightarrow> Some (Inl e)
               | Inr (ts, r2) \<Rightarrow> Some (Inr (t1 # ts, r2))) = Some (Inr (texts, r'))"
      by (auto simp: bind_eq_Some_conv)
    show thesis
    proof (cases res')
      case (Inl e)
      with m show thesis by simp
    next
      case (Inr st')
      obtain ts r2 where "st' = (ts, r2)" by (cases st')
      with m Inr l res \<open>res = Inr st\<close> st show thesis by (auto intro: that)
    qed
  qed
qed

lemma generateText_loop_terminals:
  "generateText_loop n p g r = Some (Inr (texts, r')) \<Longrightarrow>
   \<forall>t \<in> set texts. \<forall>w \<in> set t. isTerminal w = Inr True"
proof (induction n arbitrary: r texts)
  case 0
  then show ?case by simp
next
  case (Suc n)
  from Suc.prems obtain t1 r1 ts where
    a: "buildTextVector p g [] r = Some (Inr (t1, r1))"
    and b: "generateText_loop n p g r1 = Some (Inr (ts, r'))"
    and c: "texts = t1 # ts"
    by (rule generateText_loop_Suc_Inr)
  from buildTextVector_terminals[OF a] have "\<forall>w \<in> set t1. isTerminal w = Inr True" by auto
  with Suc.IH[OF b] c show ?case by simp
qed

lemma generateText_terminals:
  "generateText s g r = Some (Inr (texts, r')) \<Longrightarrow>
   \<forall>t \<in> set texts. \<forall>w \<in> set t. isTerminal w = Inr True"
  unfolding generateText_def
  by (auto split: sum.splits dest: generateText_loop_terminals)

lemma generateText_undefined:
  "g s = None \<Longrightarrow> generateText s g r = Some (Inl map_at_out_of_range)"
  by (simp add: generateText_def grammar_at_def)

lemma buildTextVector_after_prefix:
  "buildTextVector pre g t r = Some (Inr (t1, r1)) \<Longrightarrow>
   buildTextVector (pre @ rest) g t r = buildTextVector rest g t1 r1"
  by (simp add: buildTextVector_append)

lemma buildTextVector_single_terminal:
  "isTerminal w = Inr True \<Longrightarrow> buildTextVector [w] g t r = Some (Inr (t @ [w], r))"
  by (simp add: buildTextVector_terminal buildTextVector_Nil)

section \<open>A run that arrives at an undefined nonterminal\<close>

lemma reaches_fails:
  assumes "reaches g p t r w" and "isTerminal w = Inr False" and "g w = None"
  shows "buildTextVector p g t r = Some (Inl map_at_out_of_range)"
  using assms
proof (induction rule: reaches.induct)
  case (here pre g t r t1 r1 w post)
  from here(1) have "buildTextVector (pre @ w # post) g t r = buildTextVector (w # post) g t1 r1"
    by (rule buildTextVector_after_prefix)
  also have "\<dots> = Some (Inl map_at_out_of_range)"
    using here(2,3) by (rule buildTextVector_undefined)
  finally show ?case .
next
  case (inside pre g t r t1 r1 v d p r2 w post)
  from inside(1) have "buildTextVector (pre @ v # post) g t r = buildTextVector (v # post) g t1 r1"
    by (rule buildTextVector_after_prefix)
  also have "\<dots> = Option.bind (buildTextVector p g t1 r2)
        (\<lambda>res. case res of Inl e \<Rightarrow> Some (Inl e)
               | Inr (text', r'') \<Rightarrow> buildTextVector post g text' r'')"
    using inside(2,3,4) by (rule buildTextVector_nonterminal)
  also have "\<dots> = Some (Inl map_at_out_of_range)"
    using inside.IH[OF inside(7,8)] by simp
  finally show ?case .
qed

lemma generateText_loop_fails_later:
  "generateText_loop k p g r = Some (Inr (texts, r1)) \<Longrightarrow>
   buildTextVector p g [] r1 = Some (Inl e) \<Longrightarrow>
   generateText_loop (k + Suc m) p g r = Some (Inl e)"
proof (induction k arbitrary: r texts)
  case 0
  then show ?case by simp
next
  case (Suc k)
  from Suc.prems(1) obtain t1 r' ts where
    a: "buildTextVector p g [] r = Some (Inr (t1, r'))"
    and b: "generateText_loop k p g r' = Some (Inr (ts, r1))"
    by (rule generateText_loop_Suc_Inr)
  have ih: "generateText_loop (k + Suc m) p g r' = Some (Inl e)"
    using b Suc.prems(2) by (rule Suc.IH)
  have "generateText_loop (Suc k + Suc m) p g r = generateText_loop (Suc (k + Suc m)) p g r"
    by simp
  also have "\<dots> = Some (Inl e)"
    by (simp add: a ih del: add_Suc_right)
  finally show ?case .
qed

section \<open>The expander against the specification\<close>





section \<open>How the draws select the alternatives\<close>




section \<open>Unfolding the reader and the program\<close>

lemma readGrammar_eof:
  "CHR ''{'' \<notin> set infile \<Longrightarrow> readGrammar ctor infile grammar = Some (Inr grammar)"
  by (subst readGrammar.simps) (simp add: getline_eof_def)

lemma putback_getline:
  "c \<in> set infile \<Longrightarrow> putback c (snd (getline infile c)) = dropWhile (\<lambda>x. x \<noteq> c) infile"
  by (induction infile) (auto simp: putback_def getline_def)

lemma readGrammar_block:
  "CHR ''{'' \<in> set infile \<Longrightarrow>
   ctor (dropWhile (\<lambda>c. c \<noteq> CHR ''{'') infile) = Inr (d, infile') \<Longrightarrow>
   readGrammar ctor infile grammar = readGrammar ctor infile' (grammar(getNonterminal d \<mapsto> d))"
  by (subst readGrammar.simps) (simp add: getline_eof_def putback_getline)

lemma readGrammar_error:
  "CHR ''{'' \<in> set infile \<Longrightarrow>
   ctor (dropWhile (\<lambda>c. c \<noteq> CHR ''{'') infile) = Inl e \<Longrightarrow>
   readGrammar ctor infile grammar = Some (Inl e)"
  by (subst readGrammar.simps) (simp add: getline_eof_def putback_getline)

lemma main_result:
  "readGrammar Definition_ctor grammarFile Map.empty = Some (Inr g) \<Longrightarrow>
   main grammarFile r =
     map_option (map_sum id (\<lambda>(texts, r'). (card (dom g), texts))) (generateText ''<start>'' g r)"
  unfolding main_def startNonTerminal_def
  by (cases "generateText ''<start>'' g r") (auto split: sum.splits)

section \<open>The blocks that are read\<close>

lemma stored_Nil: "stored g [] = g"
  by (simp add: stored_def)

lemma stored_Cons: "stored g (d # ds) = stored (g(getNonterminal d \<mapsto> d)) ds"
  by (simp add: stored_def)

lemma stored_append: "stored g (ds @ es) = stored (stored g ds) es"
  by (simp add: stored_def)

lemma readGrammar_blocks:
  "blocks ctor infile ds \<Longrightarrow> readGrammar ctor infile g = Some (Inr (stored g ds))"
proof (induction ds arbitrary: infile g)
  case Nil
  then show ?case by (simp add: readGrammar_eof stored_Nil)
next
  case (Cons d ds)
  from Cons.prems obtain infile' where a: "CHR ''{'' \<in> set infile"
    and b: "ctor (dropWhile (\<lambda>c. c \<noteq> CHR ''{'') infile) = Inr (d, infile')"
    and c: "blocks ctor infile' ds"
    by (auto split: sum.splits)
  from a b have "readGrammar ctor infile g = readGrammar ctor infile' (g(getNonterminal d \<mapsto> d))"
    by (rule readGrammar_block)
  also have "\<dots> = Some (Inr (stored (g(getNonterminal d \<mapsto> d)) ds))"
    using c by (rule Cons.IH)
  finally show ?case by (simp only: stored_Cons)
qed

lemma dom_stored: "dom (stored g ds) = dom g \<union> getNonterminal ` set ds"
  by (induction ds arbitrary: g) (auto simp: stored_Nil stored_Cons)

lemma stored_other: "k \<notin> getNonterminal ` set ds \<Longrightarrow> stored g ds k = g k"
  by (induction ds arbitrary: g) (auto simp: stored_Nil stored_Cons)

lemma stored_last_wins:
  "getNonterminal d \<notin> getNonterminal ` set ds2 \<Longrightarrow>
   stored g (ds1 @ d # ds2) (getNonterminal d) = Some d"
  by (simp add: stored_append stored_Cons stored_other)

section \<open>The reader accepts the conforming texts and no others\<close>

lemma getline_split:
  "c \<in> set s \<Longrightarrow> s = fst (getline s c) @ c # snd (getline s c) \<and> c \<notin> set (fst (getline s c))"
  by (induction s) (auto simp: getline_def)

lemma getline_found:
  "c \<notin> set pre \<Longrightarrow> getline (pre @ c # s) c = (pre, s) \<and> \<not> getline_eof (pre @ c # s) c"
  by (induction pre) (auto simp: getline_def getline_eof_def)

lemma text_of_lines_Cons: "text_of_lines (l # ls) = l @ newline # text_of_lines ls"
  by (simp add: text_of_lines_def)

lemma text_of_lines_Nil: "text_of_lines [] = []"
  by (simp add: text_of_lines_def)

lemma read_line_Inr:
  "read_line s = Inr (l, s') \<longleftrightarrow> s = l @ newline # s' \<and> newline \<notin> set l"
proof
  assume a: "read_line s = Inr (l, s')"
  then have nl: "newline \<in> set s"
    by (auto simp: read_line_def getline_eof_def split: if_splits)
  from a nl have "fst (getline s newline) = l" "snd (getline s newline) = s'"
    by (auto simp: read_line_def getline_eof_def)
  with getline_split[OF nl] show "s = l @ newline # s' \<and> newline \<notin> set l" by simp
next
  assume "s = l @ newline # s' \<and> newline \<notin> set l"
  with getline_found[of newline l s'] show "read_line s = Inr (l, s')"
    by (simp add: read_line_def)
qed

lemma read_line_error: "read_line s = Inl e \<Longrightarrow> e = GrammarFormatError"
  by (auto simp: read_line_def split: if_splits)

lemma read_productions_sound:
  "read_productions k s = Inr (ps, s') \<Longrightarrow>
   \<exists>lines. s = text_of_lines lines @ s' \<and> length lines = k \<and>
           (\<forall>l \<in> set lines. newline \<notin> set l) \<and> ps = map Production_of_line lines"
proof (induction k arbitrary: s ps)
  case 0
  then show ?case by (intro exI[of _ "[]"]) (simp add: text_of_lines_Nil)
next
  case (Suc k)
  from Suc.prems obtain line s1 ps' where
    rl: "read_line s = Inr (line, s1)"
    and rp: "read_productions k s1 = Inr (ps', s')"
    and ps: "ps = Production_of_line line # ps'"
    by (auto split: sum.splits)
  from Suc.IH[OF rp] obtain lines where l:
    "s1 = text_of_lines lines @ s'" "length lines = k"
    "\<forall>l \<in> set lines. newline \<notin> set l" "ps' = map Production_of_line lines"
    by blast
  from rl l(1) have "s = text_of_lines (line # lines) @ s'" and "newline \<notin> set line"
    by (simp_all add: read_line_Inr text_of_lines_Cons)
  with l ps show ?case
    by (intro exI[of _ "line # lines"]) simp
qed

lemma read_productions_complete:
  "\<forall>l \<in> set lines. newline \<notin> set l \<Longrightarrow>
   read_productions (length lines) (text_of_lines lines @ s') = Inr (map Production_of_line lines, s')"
proof (induction lines)
  case Nil
  then show ?case by (simp add: text_of_lines_Nil)
next
  case (Cons l ls)
  then have "read_line (text_of_lines (l # ls) @ s') = Inr (l, text_of_lines ls @ s')"
    by (simp add: read_line_Inr text_of_lines_Cons)
  with Cons show ?case by simp
qed

lemma read_productions_error: "read_productions k s = Inl e \<Longrightarrow> e = GrammarFormatError"
  by (induction k arbitrary: s) (auto split: sum.splits dest: read_line_error)

lemma read_count_error: "read_count cnt = Inl e \<Longrightarrow> e = GrammarFormatError"
  by (auto simp: read_count_def split: if_splits)

lemma read_closing_error: "read_closing s = Inl e \<Longrightarrow> e = GrammarFormatError"
  by (cases s) (auto split: if_splits)

lemma read_closing_Inr: "read_closing s = Inr s' \<longleftrightarrow> s = CHR ''}'' # s'"
  by (cases s) auto

lemma Definition_ctor_error: "Definition_ctor s = Inl e \<Longrightarrow> e = GrammarFormatError"
  unfolding Definition_ctor_def
  by (auto split: list.splits if_splits sum.splits)
    (blast dest: read_line_error read_productions_error read_count_error read_closing_error)+

lemma Definition_ctor_complete:
  assumes "newline \<notin> set pad" "newline \<notin> set name" "newline \<notin> set cnt"
    "read_count cnt = Inr (length lines)" "\<forall>l \<in> set lines. newline \<notin> set l"
  shows "Definition_ctor (block_text pad name cnt lines @ s') =
     Inr (\<lparr>nonterminal_name = name, possibleExpansions = map Production_of_line lines\<rparr>, s')"
proof -
  let ?in3 = "text_of_lines lines @ CHR ''}'' # s'"
  let ?in2 = "cnt @ newline # ?in3"
  let ?in1 = "name @ newline # ?in2"
  let ?in0 = "pad @ newline # ?in1"
  have 0: "read_line ?in0 = Inr (pad, ?in1)" using assms(1) by (simp add: read_line_Inr)
  have 1: "read_line ?in1 = Inr (name, ?in2)" using assms(2) by (simp add: read_line_Inr)
  have 2: "read_line ?in2 = Inr (cnt, ?in3)" using assms(3) by (simp add: read_line_Inr)
  have 3: "read_productions (length lines) ?in3 =
      Inr (map Production_of_line lines, CHR ''}'' # s')"
    using assms(5) by (rule read_productions_complete)
  have "block_text pad name cnt lines @ s' = CHR ''{'' # ?in0"
    by (simp add: block_text_def)
  then show ?thesis
    by (simp add: Definition_ctor_def 0 1 2 3 assms(4))
qed

lemma Definition_ctor_sound:
  assumes "Definition_ctor s = Inr (d, s')"
  shows "\<exists>b. s = b @ s' \<and> is_block b"
proof -
  from assms obtain in0 where s: "s = CHR ''{'' # in0"
    by (auto simp: Definition_ctor_def split: list.splits if_splits)
  from assms s obtain pad in1 name in2 cnt in3 k ps in4 where
    r0: "read_line in0 = Inr (pad, in1)" and r1: "read_line in1 = Inr (name, in2)"
    and r2: "read_line in2 = Inr (cnt, in3)" and rc: "read_count cnt = Inr k"
    and rp: "read_productions k in3 = Inr (ps, in4)" and cl: "read_closing in4 = Inr s'"
    by (auto simp: Definition_ctor_def split: sum.splits)
  from read_productions_sound[OF rp] obtain lines where l:
    "in3 = text_of_lines lines @ in4" "length lines = k" "\<forall>l \<in> set lines. newline \<notin> set l"
    by blast
  from cl have in4: "in4 = CHR ''}'' # s'" by (simp add: read_closing_Inr)
  from r0 r1 r2 have p: "in0 = pad @ newline # in1" "in1 = name @ newline # in2"
    "in2 = cnt @ newline # in3" "newline \<notin> set pad" "newline \<notin> set name" "newline \<notin> set cnt"
    by (simp_all add: read_line_Inr)
  have "s = block_text pad name cnt lines @ s'"
    by (simp add: s p(1,2,3) l(1) in4 block_text_def)
  moreover have "is_block (block_text pad name cnt lines)"
    unfolding is_block_def using p(4,5,6) rc l(2,3) by blast
  ultimately show ?thesis by blast
qed

lemma is_block_starts: "is_block b \<Longrightarrow> \<exists>b'. b = CHR ''{'' # b'"
  by (auto simp: is_block_def block_text_def)

lemma dropWhile_junk:
  "CHR ''{'' \<notin> set junk \<Longrightarrow>
   dropWhile (\<lambda>c. c \<noteq> CHR ''{'') (junk @ CHR ''{'' # s) = CHR ''{'' # s"
  by (induction junk) auto

lemma junk_split:
  "s = takeWhile (\<lambda>c. c \<noteq> CHR ''{'') s @ dropWhile (\<lambda>c. c \<noteq> CHR ''{'') s \<and>
   CHR ''{'' \<notin> set (takeWhile (\<lambda>c. c \<noteq> CHR ''{'') s)"
  by (auto dest: set_takeWhileD)

lemma readGrammar_total_sound:
  "\<exists>res. readGrammar Definition_ctor s g = Some res \<and>
     (case res of Inl e \<Rightarrow> e = GrammarFormatError | Inr g' \<Rightarrow> conforms s)"
proof (induction "length s" arbitrary: s g rule: less_induct)
  case less
  show ?case
  proof (cases "CHR ''{'' \<in> set s")
    case False
    then show ?thesis by (simp add: readGrammar_eof conforms.no_block)
  next
    case True
    let ?s' = "dropWhile (\<lambda>c. c \<noteq> CHR ''{'') s"
    let ?junk = "takeWhile (\<lambda>c. c \<noteq> CHR ''{'') s"
    show ?thesis
    proof (cases "Definition_ctor ?s'")
      case (Inl e)
      with True have "readGrammar Definition_ctor s g = Some (Inl e)"
        by (rule readGrammar_error)
      with Definition_ctor_error[OF Inl] show ?thesis by simp
    next
      case (Inr pr)
      obtain d rest where pr: "pr = (d, rest)" by (cases pr)
      from Inr pr have ctor: "Definition_ctor ?s' = Inr (d, rest)" by simp
      from Definition_ctor_sound[OF ctor] obtain b where b: "?s' = b @ rest" "is_block b"
        by blast
      from is_block_starts[OF b(2)] b(1) have "length rest < length ?s'" by auto
      also have "\<dots> \<le> length s" by (simp add: length_dropWhile_le)
      finally have lt: "length rest < length s" .
      from less[OF lt, of "g(getNonterminal d \<mapsto> d)"] obtain res where
        res: "readGrammar Definition_ctor rest (g(getNonterminal d \<mapsto> d)) = Some res"
        and sh: "case res of Inl e \<Rightarrow> e = GrammarFormatError | Inr g' \<Rightarrow> conforms rest"
        by blast
      from True ctor have "readGrammar Definition_ctor s g =
          readGrammar Definition_ctor rest (g(getNonterminal d \<mapsto> d))"
        by (rule readGrammar_block)
      with res have r: "readGrammar Definition_ctor s g = Some res" by simp
      have s: "s = ?junk @ b @ rest" "CHR ''{'' \<notin> set ?junk"
        using junk_split[of s] b(1) by simp_all
      show ?thesis
      proof (cases res)
        case (Inl e)
        with r sh show ?thesis by simp
      next
        case (Inr g')
        with sh have "conforms rest" by simp
        with s(2) b(2) have "conforms (?junk @ b @ rest)" by (rule conforms.block)
        with s(1) r Inr show ?thesis by simp
      qed
    qed
  qed
qed

lemma readGrammar_complete:
  "conforms s \<Longrightarrow> \<exists>g'. readGrammar Definition_ctor s g = Some (Inr g')"
proof (induction arbitrary: g rule: conforms.induct)
  case (no_block junk)
  then show ?case by (simp add: readGrammar_eof)
next
  case (block junk b rest)
  from block.hyps(2) obtain pad name cnt lines where
    b: "b = block_text pad name cnt lines" and ok: "newline \<notin> set pad" "newline \<notin> set name"
    "newline \<notin> set cnt" "read_count cnt = Inr (length lines)" "\<forall>l \<in> set lines. newline \<notin> set l"
    unfolding is_block_def by blast
  let ?d = "\<lparr>nonterminal_name = name, possibleExpansions = map Production_of_line lines\<rparr>"
  from Definition_ctor_complete[OF ok, of rest] b
  have ctor: "Definition_ctor (b @ rest) = Inr (?d, rest)" by simp
  from is_block_starts[OF block.hyps(2)] obtain b' where b': "b = CHR ''{'' # b'" by blast
  with block.hyps(1) have dw: "dropWhile (\<lambda>c. c \<noteq> CHR ''{'') (junk @ b @ rest) = b @ rest"
    using dropWhile_junk[of junk "b' @ rest"] by simp
  have mem: "CHR ''{'' \<in> set (junk @ b @ rest)" using b' by simp
  from ctor dw have "Definition_ctor (dropWhile (\<lambda>c. c \<noteq> CHR ''{'') (junk @ b @ rest)) = Inr (?d, rest)"
    by simp
  with mem have step: "readGrammar Definition_ctor (junk @ b @ rest) g =
      readGrammar Definition_ctor rest (g(getNonterminal ?d \<mapsto> ?d))"
    by (rule readGrammar_block)
  have "\<exists>g'. readGrammar Definition_ctor rest (g(getNonterminal ?d \<mapsto> ?d)) = Some (Inr g')"
    by (rule block.IH)
  then show ?case by (simp only: step)
qed

text \<open>
  The two notions of a well-formed text agree for the block constructor: the texts
  that conform to the block format are those that hold some list of blocks.
\<close>

lemma conforms_blocks: "conforms s \<Longrightarrow> \<exists>ds. blocks Definition_ctor s ds"
proof (induction rule: conforms.induct)
  case (no_block junk)
  then have "blocks Definition_ctor junk []" by simp
  then show ?case ..
next
  case (block junk b rest)
  from block.hyps(2) obtain pad name cnt lines where
    b: "b = block_text pad name cnt lines" and ok: "newline \<notin> set pad" "newline \<notin> set name"
    "newline \<notin> set cnt" "read_count cnt = Inr (length lines)" "\<forall>l \<in> set lines. newline \<notin> set l"
    unfolding is_block_def by blast
  let ?d = "\<lparr>nonterminal_name = name, possibleExpansions = map Production_of_line lines\<rparr>"
  from Definition_ctor_complete[OF ok, of rest] b
  have ctor: "Definition_ctor (b @ rest) = Inr (?d, rest)" by simp
  from is_block_starts[OF block.hyps(2)] obtain b' where b': "b = CHR ''{'' # b'" by blast
  with block.hyps(1) have dw: "dropWhile (\<lambda>c. c \<noteq> CHR ''{'') (junk @ b @ rest) = b @ rest"
    using dropWhile_junk[of junk "b' @ rest"] by simp
  have mem: "CHR ''{'' \<in> set (junk @ b @ rest)" using b' by simp
  from block.IH obtain ds where "blocks Definition_ctor rest ds" ..
  with mem dw ctor have "blocks Definition_ctor (junk @ b @ rest) (?d # ds)" by simp
  then show ?case ..
qed

lemma blocks_conforms: "blocks Definition_ctor s ds \<Longrightarrow> conforms s"
proof (induction ds arbitrary: s)
  case Nil
  then show ?case by (simp add: conforms.no_block)
next
  case (Cons d ds)
  let ?s' = "dropWhile (\<lambda>c. c \<noteq> CHR ''{'') s"
  let ?junk = "takeWhile (\<lambda>c. c \<noteq> CHR ''{'') s"
  from Cons.prems obtain rest where ctor: "Definition_ctor ?s' = Inr (d, rest)"
    and bl: "blocks Definition_ctor rest ds"
    by (auto split: sum.splits)
  from Definition_ctor_sound[OF ctor] obtain b where b: "?s' = b @ rest" "is_block b" by blast
  have s: "s = ?junk @ b @ rest" "CHR ''{'' \<notin> set ?junk"
    using junk_split[of s] b(1) by simp_all
  from s(2) b(2) Cons.IH[OF bl] have "conforms (?junk @ b @ rest)" by (rule conforms.block)
  with s(1) show ?case by simp
qed

section \<open>Runs on the example grammar\<close>

lemma startOnlyGrammar_start: "startOnlyGrammar ''<start>'' = Some startDefinition"
  by (simp add: startOnlyGrammar_def)

lemma startOnlyGrammar_animal: "startOnlyGrammar ''<animal>'' = None"
  by (simp add: startOnlyGrammar_def)

lemma getRandomProduction_start:
  "getRandomProduction startDefinition r = Inr ([''The'', ''<animal>'', ''sat'', ''.''], stl r)"
  by (simp add: getRandomProduction_def startDefinition_def)

lemma exampleGrammar_start: "exampleGrammar ''<start>'' = Some startDefinition"
  by (simp add: exampleGrammar_def)

lemma exampleGrammar_animal: "exampleGrammar ''<animal>'' = Some animalDefinition"
  by (simp add: exampleGrammar_def)

lemma startProduction_run:
  "buildTextVector [''The'', ''<animal>'', ''sat'', ''.''] exampleGrammar [] (sconst 0) =
     Some (Inr ([''The'', ''cat'', ''sat'', ''.''], sconst 0))"
  by (simp add: buildTextVector.simps exampleGrammar_animal animalDefinition_def
        grammar_at_def getRandomProduction_def)

lemma generateText_example:
  "generateText ''<start>'' exampleGrammar (sconst 0) =
     Some (Inr ([[''The'', ''cat'', ''sat'', ''.''], [''The'', ''cat'', ''sat'', ''.''],
                 [''The'', ''cat'', ''sat'', ''.'']], sconst 0))"
  by (simp add: generateText_def numberOfVersions_def eval_nat_numeral startProduction_run
        exampleGrammar_start startDefinition_def grammar_at_def getRandomProduction_def)

lemmas parse_eval =
  readGrammar.simps text_of_lines_def getline_eof_def getline_def putback_def
  Definition_ctor_def read_line_def newline_def read_count_def isdigit_def Production_of_line_def isspace_def
  getNonterminal_def eval_nat_numeral

lemma readGrammar_exampleText:
  "readGrammar Definition_ctor exampleText Map.empty = Some (Inr exampleGrammar)"
  by (simp add: parse_eval exampleText_def exampleGrammar_def startDefinition_def animalDefinition_def)

lemma readGrammar_startOnlyText:
  "readGrammar Definition_ctor startOnlyText Map.empty = Some (Inr startOnlyGrammar)"
  by (simp add: parse_eval startOnlyText_def startOnlyGrammar_def startDefinition_def)

lemma readGrammar_animalOnlyText:
  "readGrammar Definition_ctor animalOnlyText Map.empty = Some (Inr [''<animal>'' \<mapsto> animalDefinition])"
  by (simp add: parse_eval animalOnlyText_def animalDefinition_def)

lemma card_dom_exampleGrammar: "card (dom exampleGrammar) = 2"
  by (simp add: exampleGrammar_def)

lemma blocks_exampleText: "blocks Definition_ctor exampleText [startDefinition, animalDefinition]"
  by (simp add: parse_eval exampleText_def startDefinition_def animalDefinition_def)

lemma blocks_duplicateText: "blocks Definition_ctor duplicateText [startFirst, startSecond]"
  by (simp add: parse_eval duplicateText_def startFirst_def startSecond_def)

lemma stored_example: "stored Map.empty [startDefinition, animalDefinition] = exampleGrammar"
  by (simp add: stored_def exampleGrammar_def getNonterminal_def startDefinition_def animalDefinition_def)

lemma readGrammar_countMismatchText:
  "readGrammar Definition_ctor countMismatchText g = Some (Inl GrammarFormatError)"
  by (simp add: parse_eval countMismatchText_def)

lemma readGrammar_nonIntegerCountText:
  "readGrammar Definition_ctor nonIntegerCountText g = Some (Inl GrammarFormatError)"
  by (simp add: parse_eval nonIntegerCountText_def)

lemma not_conforms_countMismatchText: "\<not> conforms countMismatchText"
  using readGrammar_complete[of countMismatchText Map.empty]
  by (auto simp: readGrammar_countMismatchText)

lemma not_conforms_nonIntegerCountText: "\<not> conforms nonIntegerCountText"
  using readGrammar_complete[of nonIntegerCountText Map.empty]
  by (auto simp: readGrammar_nonIntegerCountText)

lemma conforms_exampleText: "conforms exampleText"
  using readGrammar_total_sound[of exampleText Map.empty]
  by (auto simp: readGrammar_exampleText)

lemma reaches_nested:
  "reaches nestedGrammar [''go'', ''<a>''] [] r ''<missing>''"
proof -
  have b: "nestedGrammar ''<b>'' = Some missingDefinition"
    and a: "nestedGrammar ''<a>'' = Some nestedDefinition"
    by (simp_all add: nestedGrammar_def)
  have "buildTextVector [''x''] nestedGrammar [''go''] (stl (stl r)) =
      Some (Inr ([''go'', ''x''], stl (stl r)))"
    by (simp add: buildTextVector_single_terminal)
  then have "reaches nestedGrammar ([''x''] @ ''<missing>'' # [''y'']) [''go''] (stl (stl r)) ''<missing>''"
    by (rule reaches.here)
  then have 1: "reaches nestedGrammar [''x'', ''<missing>'', ''y''] [''go''] (stl (stl r)) ''<missing>''"
    by simp
  have "reaches nestedGrammar ([] @ ''<b>'' # []) [''go''] (stl r) ''<missing>''"
  proof (rule reaches.inside)
    show "buildTextVector [] nestedGrammar [''go''] (stl r) = Some (Inr ([''go''], stl r))"
      by (rule buildTextVector_Nil)
    show "isTerminal ''<b>'' = Inr False" by simp
    show "nestedGrammar ''<b>'' = Some missingDefinition" by (rule b)
    show "getRandomProduction missingDefinition (stl r) =
        Inr ([''x'', ''<missing>'', ''y''], stl (stl r))"
      by (simp add: getRandomProduction_def missingDefinition_def)
    show "reaches nestedGrammar [''x'', ''<missing>'', ''y''] [''go''] (stl (stl r)) ''<missing>''"
      by (rule 1)
  qed
  then have 2: "reaches nestedGrammar [''<b>''] [''go''] (stl r) ''<missing>''" by simp
  have "reaches nestedGrammar ([''go''] @ ''<a>'' # []) [] r ''<missing>''"
  proof (rule reaches.inside)
    show "buildTextVector [''go''] nestedGrammar [] r = Some (Inr ([''go''], r))"
      by (simp add: buildTextVector_single_terminal)
    show "isTerminal ''<a>'' = Inr False" by simp
    show "nestedGrammar ''<a>'' = Some nestedDefinition" by (rule a)
    show "getRandomProduction nestedDefinition r = Inr ([''<b>''], stl r)"
      by (simp add: getRandomProduction_def nestedDefinition_def)
    show "reaches nestedGrammar [''<b>''] [''go''] (stl r) ''<missing>''" by (rule 2)
  qed
  then show ?thesis by simp
qed


section \<open>The claims\<close>

text \<open>
  Claim C1 says that each of the three repetitions draws its own alternative of the
  start Definition. The program draws once, before the loop, and expands that one
  production three times: with a start symbol of the alternatives \<open>a\<close> and \<open>b\<close> and
  the draws 0, 1, 1, ... all three texts are \<open>a\<close> and a single draw is used, where
  generation as specified gives \<open>a\<close>, \<open>b\<close>, \<open>b\<close>.
\<close>

theorem generateText_draws_top_level_once:
  "generateText ''<start>'' twoWayGrammar (0 ## sconst 1) =
     Some (Inr ([[''a''], [''a''], [''a'']], sconst 1)) \<and>
   generate_as_specified 3 twoWayDefinition twoWayGrammar (0 ## sconst 1) =
     Some (Inr ([[''a''], [''b''], [''b'']], sconst 1))"
  by (simp add: generateText_def grammar_at_def twoWayGrammar_def twoWayDefinition_def
      getRandomProduction_def numberOfVersions_def eval_nat_numeral buildTextVector_single_terminal)

text \<open>
  Claim C2. Whatever the grammar, every token that the expander appends to the
  text, and so every token of every text that the generator produces, is a
  terminal: it is not empty and its first character is not \<open><\<close>.
\<close>

theorem output_tokens_are_terminals:
  "(buildTextVector p g t r = Some (Inr (t', r')) \<longrightarrow>
      (\<exists>out. t' = t @ out \<and> (\<forall>w \<in> set out. \<exists>c cs. w = c # cs \<and> c \<noteq> CHR ''<''))) \<and>
   (generateText s g r = Some (Inr (texts, r'')) \<longrightarrow>
      (\<forall>t \<in> set texts. \<forall>w \<in> set t. \<exists>c cs. w = c # cs \<and> c \<noteq> CHR ''<''))"
  using buildTextVector_terminals[of p g t r t' r'] generateText_terminals[of s g r texts r'']
  unfolding isTerminal_True_iff by blast

theorem output_tokens_are_terminals_witness:
  "buildTextVector [''The'', ''<animal>'', ''sat'', ''.''] exampleGrammar [] (sconst 0) =
     Some (Inr ([''The'', ''cat'', ''sat'', ''.''], sconst 0)) \<and>
   (\<exists>out. [''The'', ''cat'', ''sat'', ''.''] = [] @ out \<and>
          list_all (\<lambda>w. \<exists>c cs. w = c # cs \<and> c \<noteq> CHR ''<'') out) \<and>
   generateText ''<start>'' exampleGrammar (sconst 0) =
     Some (Inr ([[''The'', ''cat'', ''sat'', ''.''], [''The'', ''cat'', ''sat'', ''.''],
                 [''The'', ''cat'', ''sat'', ''.'']], sconst 0)) \<and>
   list_all (list_all (\<lambda>w. \<exists>c cs. w = c # cs \<and> c \<noteq> CHR ''<''))
     [[''The'', ''cat'', ''sat'', ''.''], [''The'', ''cat'', ''sat'', ''.''],
      [''The'', ''cat'', ''sat'', ''.'']]"
  using output_tokens_are_terminals[of "[''The'', ''<animal>'', ''sat'', ''.'']" exampleGrammar
      "[]" "sconst 0" "[''The'', ''cat'', ''sat'', ''.'']" "sconst 0" "''<start>''"
      "[[''The'', ''cat'', ''sat'', ''.''], [''The'', ''cat'', ''sat'', ''.''],
        [''The'', ''cat'', ''sat'', ''.'']]" "sconst 0"]
    startProduction_run generateText_example
  unfolding list_all_iff by blast

text \<open>
  Claim C3. When a nonterminal \<open>w\<close> is not a key of the grammar, asking for its
  expansion fails with the \<^verbatim>\<open>out_of_range\<close> failure of \<^verbatim>\<open>map::at\<close> (the
  specification's \<open>UndefinedNonterminalError\<close>), returned to the caller as a value.
  That holds for \<open>w\<close> as the start symbol of \<open>generateText\<close>; for every run of
  \<open>buildTextVector\<close> that arrives at \<open>w\<close>, in the production it was given or in a
  production chosen on the way, however deep; and for \<open>generateText\<close> on a defined
  start symbol, when the run of any of its repetitions arrives at \<open>w\<close>.
\<close>

theorem undefined_nonterminal_fails:
  assumes "g w = None"
  shows "generateText w g r = Some (Inl map_at_out_of_range) \<and>
     (isTerminal w = Inr False \<and> reaches g p t r w \<longrightarrow>
        buildTextVector p g t r = Some (Inl map_at_out_of_range)) \<and>
     (isTerminal w = Inr False \<and> g s = Some d \<and> getRandomProduction d r = Inr (p, r0) \<and>
      k < numberOfVersions \<and> generateText_loop k p g r0 = Some (Inr (texts, r1)) \<and>
      reaches g p [] r1 w \<longrightarrow>
        generateText s g r = Some (Inl map_at_out_of_range))"
proof (intro conjI impI)
  show "generateText w g r = Some (Inl map_at_out_of_range)"
    using assms by (rule generateText_undefined)
next
  assume "isTerminal w = Inr False \<and> reaches g p t r w"
  then show "buildTextVector p g t r = Some (Inl map_at_out_of_range)"
    using assms by (blast intro: reaches_fails)
next
  assume a: "isTerminal w = Inr False \<and> g s = Some d \<and> getRandomProduction d r = Inr (p, r0) \<and>
      k < numberOfVersions \<and> generateText_loop k p g r0 = Some (Inr (texts, r1)) \<and>
      reaches g p [] r1 w"
  then have f: "buildTextVector p g [] r1 = Some (Inl map_at_out_of_range)"
    using assms by (blast intro: reaches_fails)
  from a obtain m where m: "numberOfVersions = k + Suc m"
    using less_imp_Suc_add by auto
  from a f have "generateText_loop (k + Suc m) p g r0 = Some (Inl map_at_out_of_range)"
    by (intro generateText_loop_fails_later) simp_all
  with a m show "generateText s g r = Some (Inl map_at_out_of_range)"
    by (simp add: generateText_def grammar_at_def)
qed

theorem undefined_nonterminal_fails_witness:
  "nestedGrammar ''<missing>'' = None \<and>
   generateText ''<missing>'' nestedGrammar (sconst 0) = Some (Inl map_at_out_of_range) \<and>
   isTerminal ''<missing>'' = Inr False \<and>
   reaches nestedGrammar [''go'', ''<a>''] [] (sconst 0) ''<missing>'' \<and>
   buildTextVector [''go'', ''<a>''] nestedGrammar [] (sconst 0) = Some (Inl map_at_out_of_range) \<and>
   nestedGrammar ''<start>'' = Some nestedStart \<and>
   getRandomProduction nestedStart (sconst 0) = Inr ([''go'', ''<a>''], sconst 0) \<and>
   generateText_loop 0 [''go'', ''<a>''] nestedGrammar (sconst 0) = Some (Inr ([], sconst 0)) \<and>
   generateText ''<start>'' nestedGrammar (sconst 0) = Some (Inl map_at_out_of_range)"
proof -
  have a: "nestedGrammar ''<missing>'' = None" by (simp add: nestedGrammar_def)
  have b: "isTerminal ''<missing>'' = Inr False" by simp
  have c: "reaches nestedGrammar [''go'', ''<a>''] [] (sconst 0) ''<missing>''"
    by (rule reaches_nested)
  have d: "nestedGrammar ''<start>'' = Some nestedStart" by (simp add: nestedGrammar_def)
  have e: "getRandomProduction nestedStart (sconst 0) = Inr ([''go'', ''<a>''], sconst 0)"
    by (simp add: getRandomProduction_def nestedStart_def)
  have f: "generateText_loop 0 [''go'', ''<a>''] nestedGrammar (sconst 0) = Some (Inr ([], sconst 0))"
    by simp
  have k: "0 < numberOfVersions" by (simp add: numberOfVersions_def)
  from undefined_nonterminal_fails[where g = nestedGrammar and w = "''<missing>''"
      and r = "sconst 0" and p = "[''go'', ''<a>'']" and t = "[]" and s = "''<start>''"
      and d = nestedStart and ?r0.0 = "sconst 0" and k = 0 and texts = "[]"
      and ?r1.0 = "sconst 0", OF a] b c d e f k
  have "generateText ''<missing>'' nestedGrammar (sconst 0) = Some (Inl map_at_out_of_range)"
    and "buildTextVector [''go'', ''<a>''] nestedGrammar [] (sconst 0) = Some (Inl map_at_out_of_range)"
    and "generateText ''<start>'' nestedGrammar (sconst 0) = Some (Inl map_at_out_of_range)"
    by blast+
  with a b c d e f show ?thesis by blast
qed

text \<open>
  Claim C4, as amended. Reading a well-formed text of \<open>N\<close> definition blocks gives
  the grammar in which each block was stored under its name in turn: it has as
  many entries as the blocks have distinct names, at most \<open>N\<close>, and exactly \<open>N\<close> when
  the names differ pairwise; a block whose name no later block repeats is the entry
  under that name, so a later block has overwritten an earlier one of the same name.
\<close>

theorem readGrammar_entries:
  "blocks ctor infile ds \<Longrightarrow>
   readGrammar ctor infile Map.empty = Some (Inr (stored Map.empty ds)) \<and>
   card (dom (stored Map.empty ds)) = card (getNonterminal ` set ds) \<and>
   card (dom (stored Map.empty ds)) \<le> length ds \<and>
   (distinct (map getNonterminal ds) \<longrightarrow> card (dom (stored Map.empty ds)) = length ds) \<and>
   (ds = ds1 @ d # ds2 \<and> getNonterminal d \<notin> getNonterminal ` set ds2 \<longrightarrow>
      stored Map.empty ds (getNonterminal d) = Some d)"
proof (intro conjI impI)
  assume "blocks ctor infile ds"
  then show "readGrammar ctor infile Map.empty = Some (Inr (stored Map.empty ds))"
    by (rule readGrammar_blocks)
next
  show "card (dom (stored Map.empty ds)) = card (getNonterminal ` set ds)"
    by (simp add: dom_stored)
next
  have "card (getNonterminal ` set ds) \<le> card (set ds)" by (simp add: card_image_le)
  also have "\<dots> \<le> length ds" by (rule card_length)
  finally show "card (dom (stored Map.empty ds)) \<le> length ds" by (simp add: dom_stored)
next
  assume "distinct (map getNonterminal ds)"
  then have "card (set (map getNonterminal ds)) = length (map getNonterminal ds)"
    by (rule distinct_card)
  then show "card (dom (stored Map.empty ds)) = length ds" by (simp add: dom_stored)
next
  assume "ds = ds1 @ d # ds2 \<and> getNonterminal d \<notin> getNonterminal ` set ds2"
  then show "stored Map.empty ds (getNonterminal d) = Some d"
    by (simp add: stored_last_wins)
qed

theorem readGrammar_entries_witness:
  "blocks Definition_ctor exampleText [startDefinition, animalDefinition] \<and>
   readGrammar Definition_ctor exampleText Map.empty = Some (Inr exampleGrammar) \<and>
   distinct (map getNonterminal [startDefinition, animalDefinition]) \<and>
   card (dom exampleGrammar) = length [startDefinition, animalDefinition] \<and>
   blocks Definition_ctor duplicateText [startFirst, startSecond] \<and>
   [startFirst, startSecond] = [startFirst] @ startSecond # [] \<and>
   getNonterminal startSecond \<notin> getNonterminal ` set [] \<and>
   stored Map.empty [startFirst, startSecond] (getNonterminal startSecond) = Some startSecond \<and>
   card (dom (stored Map.empty [startFirst, startSecond])) = 1"
proof -
  have d: "distinct (map getNonterminal [startDefinition, animalDefinition])"
    by (simp add: getNonterminal_def startDefinition_def animalDefinition_def)
  from readGrammar_entries[OF blocks_exampleText, of "[]" startDefinition "[animalDefinition]"] d
  have 1: "readGrammar Definition_ctor exampleText Map.empty = Some (Inr exampleGrammar)"
    and 2: "card (dom exampleGrammar) = length [startDefinition, animalDefinition]"
    unfolding stored_example by blast+
  have e: "[startFirst, startSecond] = [startFirst] @ startSecond # []" by simp
  have f: "getNonterminal startSecond \<notin> getNonterminal ` set []" by simp
  have g: "getNonterminal ` set [startFirst, startSecond] = {''<start>''}"
    by (simp add: getNonterminal_def startFirst_def startSecond_def)
  from readGrammar_entries[OF blocks_duplicateText, of "[startFirst]" startSecond "[]"] e f
  have 3: "stored Map.empty [startFirst, startSecond] (getNonterminal startSecond) = Some startSecond"
    and 4: "card (dom (stored Map.empty [startFirst, startSecond])) = card (getNonterminal ` set [startFirst, startSecond])"
    by blast+
  from 4 g have 5: "card (dom (stored Map.empty [startFirst, startSecond])) = 1" by simp
  from blocks_exampleText blocks_duplicateText d 1 2 3 5 e f show ?thesis by blast
qed

text \<open>
  Claim C4 as stated, refuted: the text with two blocks for \<open><start>\<close> has \<open>N = 2\<close>
  blocks, but the program reports one definition, the second block.
\<close>

theorem two_blocks_one_entry:
  "blocks Definition_ctor duplicateText [startFirst, startSecond] \<and>
   length [startFirst, startSecond] = 2 \<and>
   main duplicateText (sconst 0) = Some (Inr (1, [[''b''], [''b''], [''b'']]))"
proof -
  have rg: "readGrammar Definition_ctor duplicateText Map.empty =
      Some (Inr [''<start>'' \<mapsto> startSecond])"
    by (simp add: parse_eval duplicateText_def startSecond_def)
  have "generateText ''<start>'' [''<start>'' \<mapsto> startSecond] (sconst 0) =
      Some (Inr ([[''b''], [''b''], [''b'']], sconst 0))"
    by (simp add: generateText_def grammar_at_def startSecond_def getRandomProduction_def
        numberOfVersions_def eval_nat_numeral buildTextVector_single_terminal)
  then have "main duplicateText (sconst 0) = Some (Inr (1, [[''b''], [''b''], [''b'']]))"
    by (simp add: main_result[OF rg])
  with blocks_duplicateText show ?thesis by simp
qed



text \<open>
  Claim C7. The example of the specification: the grammar text with the blocks of
  \<open><start>\<close> and \<open><animal>\<close> is read as a grammar of exactly two definitions; with a
  random source whose every draw selects alternative 0, each text generated from
  \<open><start>\<close> is \<open>The cat sat .\<close>; and when the block of \<open><animal>\<close> is left out,
  the expansion of \<open><start>\<close> fails with the failure of \<^verbatim>\<open>map::at\<close>, for every
  random source.
\<close>

theorem example_scenario:
  "readGrammar Definition_ctor exampleText Map.empty = Some (Inr exampleGrammar) \<and>
   card (dom exampleGrammar) = 2 \<and>
   generateText ''<start>'' exampleGrammar (sconst 0) =
     Some (Inr ([[''The'', ''cat'', ''sat'', ''.''], [''The'', ''cat'', ''sat'', ''.''],
                 [''The'', ''cat'', ''sat'', ''.'']], sconst 0)) \<and>
   main exampleText (sconst 0) =
     Some (Inr (2, [[''The'', ''cat'', ''sat'', ''.''], [''The'', ''cat'', ''sat'', ''.''],
                    [''The'', ''cat'', ''sat'', ''.'']])) \<and>
   readGrammar Definition_ctor startOnlyText Map.empty = Some (Inr startOnlyGrammar) \<and>
   generateText ''<start>'' startOnlyGrammar r = Some (Inl map_at_out_of_range) \<and>
   main startOnlyText r = Some (Inl map_at_out_of_range)"
proof -
  have "buildTextVector [''The'', ''<animal>'', ''sat'', ''.''] startOnlyGrammar [] (stl r) =
      Some (Inl map_at_out_of_range)"
    by (simp add: buildTextVector_terminal buildTextVector_undefined startOnlyGrammar_animal)
  then have "generateText ''<start>'' startOnlyGrammar r = Some (Inl map_at_out_of_range)"
    by (simp add: generateText_def grammar_at_def startOnlyGrammar_start
        getRandomProduction_start numberOfVersions_def eval_nat_numeral)
  then show ?thesis
    by (simp add: readGrammar_exampleText card_dom_exampleGrammar generateText_example
        readGrammar_startOnlyText main_result)
qed

text \<open>
  Claim C8. \<^verbatim>\<open>readGrammar\<close> with the block constructor always returns; on a text that
  does not conform to the block format it fails with \<open>GrammarFormatError\<close>, on a
  conforming text it succeeds, and in particular when no \<open>{\<close> is left in the input
  it stops at once and leaves the grammar as it is.
\<close>

theorem readGrammar_format_errors:
  "(\<not> conforms infile \<longrightarrow> readGrammar Definition_ctor infile g = Some (Inl GrammarFormatError)) \<and>
   (conforms infile \<longrightarrow> (\<exists>g'. readGrammar Definition_ctor infile g = Some (Inr g'))) \<and>
   (CHR ''{'' \<notin> set infile \<longrightarrow> readGrammar Definition_ctor infile g = Some (Inr g))"
proof (intro conjI impI)
  assume nc: "\<not> conforms infile"
  from readGrammar_total_sound[of infile g] obtain res where
    "readGrammar Definition_ctor infile g = Some res"
    "case res of Inl e \<Rightarrow> e = GrammarFormatError | Inr g' \<Rightarrow> conforms infile"
    by blast
  with nc show "readGrammar Definition_ctor infile g = Some (Inl GrammarFormatError)"
    by (cases res) simp_all
next
  assume "conforms infile"
  then show "\<exists>g'. readGrammar Definition_ctor infile g = Some (Inr g')"
    by (rule readGrammar_complete)
next
  assume "CHR ''{'' \<notin> set infile"
  then show "readGrammar Definition_ctor infile g = Some (Inr g)"
    by (rule readGrammar_eof)
qed

theorem readGrammar_format_errors_witness:
  "\<not> conforms countMismatchText \<and>
   readGrammar Definition_ctor countMismatchText Map.empty = Some (Inl GrammarFormatError) \<and>
   \<not> conforms nonIntegerCountText \<and>
   readGrammar Definition_ctor nonIntegerCountText Map.empty = Some (Inl GrammarFormatError) \<and>
   conforms exampleText \<and>
   (\<exists>g'. readGrammar Definition_ctor exampleText Map.empty = Some (Inr g')) \<and>
   CHR ''{'' \<notin> set ''no block'' \<and>
   readGrammar Definition_ctor ''no block'' exampleGrammar = Some (Inr exampleGrammar)"
proof -
  have n: "CHR ''{'' \<notin> set ''no block''" by simp
  from readGrammar_format_errors[of countMismatchText Map.empty] not_conforms_countMismatchText
  have 1: "readGrammar Definition_ctor countMismatchText Map.empty = Some (Inl GrammarFormatError)"
    by blast
  from readGrammar_format_errors[of nonIntegerCountText Map.empty] not_conforms_nonIntegerCountText
  have 2: "readGrammar Definition_ctor nonIntegerCountText Map.empty = Some (Inl GrammarFormatError)"
    by blast
  from readGrammar_format_errors[of exampleText Map.empty] conforms_exampleText
  have 3: "\<exists>g'. readGrammar Definition_ctor exampleText Map.empty = Some (Inr g')"
    by blast
  from readGrammar_format_errors[of "''no block''" exampleGrammar] n
  have 4: "readGrammar Definition_ctor ''no block'' exampleGrammar = Some (Inr exampleGrammar)"
    by blast
  from 1 2 3 4 n not_conforms_countMismatchText not_conforms_nonIntegerCountText
    conforms_exampleText
  show ?thesis by blast
qed

text \<open>
  Claim C9. \<open>isTerminal\<close> classifies the non-empty words only: on the empty word
  \<^verbatim>\<open>at(0)\<close> fails with \<^verbatim>\<open>out_of_range\<close>, on any other word the answer is whether
  the first character differs from \<open><\<close>. Expanding a production fails in the same
  way as soon as it reaches an empty word.
\<close>

theorem isTerminal_undefined_on_empty_token:
  "isTerminal [] = Inl string_at_out_of_range \<and>
   ((\<exists>b. isTerminal w = Inr b) \<longleftrightarrow> w \<noteq> []) \<and>
   isTerminal (c # cs) = Inr (c \<noteq> CHR ''<'') \<and>
   buildTextVector ([] # rest) g t r = Some (Inl string_at_out_of_range) \<and>
   (buildTextVector pre g t r = Some (Inr (t1, r1)) \<longrightarrow>
      buildTextVector (pre @ [] # rest) g t r = Some (Inl string_at_out_of_range))"
  by (cases w) (simp_all add: buildTextVector_empty_word buildTextVector_after_prefix)

theorem isTerminal_undefined_on_empty_token_witness:
  "isTerminal [] = Inl string_at_out_of_range \<and>
   isTerminal ''cat'' = Inr True \<and>
   buildTextVector [''The''] exampleGrammar [] (sconst 0) = Some (Inr ([''The''], sconst 0)) \<and>
   buildTextVector ([''The''] @ [] # [''sat'']) exampleGrammar [] (sconst 0) =
     Some (Inl string_at_out_of_range)"
proof -
  have c: "buildTextVector [''The''] exampleGrammar [] (sconst 0) =
      Some (Inr ([''The''], sconst 0))"
    by (simp add: buildTextVector_terminal buildTextVector_Nil)
  from isTerminal_undefined_on_empty_token[of "''cat''" "CHR ''c''" "''at''" "[''sat'']" exampleGrammar
      "[]" "sconst 0" "[''The'']" "[''The'']" "sconst 0"] c
  show ?thesis by simp
qed

text \<open>
  Claim C10. The program generates from the nonterminal \<open><start>\<close> and from no
  other: the result of \<open>main\<close> is the result of \<open>generateText\<close> on \<open><start>\<close> and
  the grammar that was read, so for a grammar without the key \<open><start>\<close> the
  generation fails.
\<close>

theorem main_starts_from_start:
  "readGrammar Definition_ctor grammarFile Map.empty = Some (Inr g) \<Longrightarrow>
   main grammarFile r =
     map_option (map_sum id (\<lambda>(texts, r'). (card (dom g), texts))) (generateText ''<start>'' g r) \<and>
   (g ''<start>'' = None \<longrightarrow> main grammarFile r = Some (Inl map_at_out_of_range))"
  by (simp add: main_result generateText_undefined)

theorem main_starts_from_start_witness:
  "readGrammar Definition_ctor animalOnlyText Map.empty = Some (Inr [''<animal>'' \<mapsto> animalDefinition]) \<and>
   [''<animal>'' \<mapsto> animalDefinition] ''<start>'' = None \<and>
   main animalOnlyText (sconst 0) = Some (Inl map_at_out_of_range)"
proof -
  have n: "[''<animal>'' \<mapsto> animalDefinition] ''<start>'' = None" by simp
  from main_starts_from_start[OF readGrammar_animalOnlyText, of "sconst 0"] n
  have "main animalOnlyText (sconst 0) = Some (Inl map_at_out_of_range)" by blast
  with readGrammar_animalOnlyText n show ?thesis by blast
qed

end
